theory Spec2Isabelle
  imports Main "HOL-Library.AList"
begin

section \<open>JavaScript values and objects\<close>

text \<open>
  The values that travel through the server: JSON data parsed from client frames and the
  records the server builds from them. Numbers are modelled as integers (ids, timestamps
  and counts are integral and stay far below \<open>2^53\<close>); an object is the list of its own
  properties in insertion order, with distinct keys.
\<close>

datatype jsval =
    JUndefined
  | JNull
  | JBool bool
  | JNum int
  | JStr string
  | JObj "(string \<times> jsval) list"

type_synonym jsobj = "(string \<times> jsval) list"

text \<open>Property read \<^verbatim>\<open>o.k\<close>: a missing property reads as \<^verbatim>\<open>undefined\<close>.\<close>

definition js_get :: "jsobj \<Rightarrow> string \<Rightarrow> jsval" where
  "js_get obj k = (case map_of obj k of Some v \<Rightarrow> v | None \<Rightarrow> JUndefined)"

text \<open>
  Object spread \<^verbatim>\<open>{...target, ...src}\<close>: every own property of \<open>src\<close> is written to
  the object under construction, in order. A key that is already there keeps its place
  and takes the new value; a new key goes to the end.
\<close>

definition spread :: "jsobj \<Rightarrow> jsobj \<Rightarrow> jsobj" where
  "spread target src = fold (\<lambda>(k, v). AList.update k v) src target"

text \<open>
  \<^verbatim>\<open>Array.prototype.slice(start)\<close> with one argument: a negative \<open>start\<close> counts from
  the end, and both directions are clamped to the array. \<^verbatim>\<open>-0\<close> is \<open>0\<close>.
\<close>

definition js_slice :: "int \<Rightarrow> 'a list \<Rightarrow> 'a list" where
  "js_slice start xs =
     (let len = int (length xs);
          k = (if start < 0 then max (len + start) 0 else min start len)
      in drop (nat k) xs)"

text \<open>
  The relational operator \<^verbatim>\<open>a > b\<close>. On two numbers it is the order of the numbers. On
  any other pair of operands the language coerces first; that part of the runtime is the
  parameter \<open>coerce_gt\<close>, and every statement below holds for each choice of it.
\<close>

fun js_gt :: "(jsval \<Rightarrow> jsval \<Rightarrow> bool) \<Rightarrow> jsval \<Rightarrow> jsval \<Rightarrow> bool" where
  "js_gt coerce_gt (JNum a) (JNum b) = (a > b)"
| "js_gt coerce_gt a b = coerce_gt a b"

section \<open>The operation log: \<^verbatim>\<open>src/server/drawing-state.js\<close>\<close>

text \<open>
  An operation is a JavaScript object. Two objects built by two evaluations of an object
  literal are different objects even when all their properties agree, so the model gives
  every operation the address \<open>ref\<close> it was allocated at, next to its properties.
\<close>

record operation =
  ref :: nat
  props :: jsobj

text \<open>
  The fields of \<^verbatim>\<open>class DrawingState\<close>. \<open>allocated\<close> is not a field of the class: it
  counts the operation objects this log has created and is the address of the next one.
\<close>

record DrawingState =
  operations :: "operation list"
  redoStack :: "operation list"
  maxOperations :: int
  operationIdCounter :: int
  allocated :: nat

text \<open>
  \<^verbatim>\<open>constructor(maxOperations = 500)\<close>: \<open>None\<close> is the call without an argument.
\<close>

definition DrawingState_new :: "int option \<Rightarrow> DrawingState" where
  "DrawingState_new maxOps =
     \<lparr>operations = [], redoStack = [],
      maxOperations = (case maxOps of None \<Rightarrow> 500 | Some m \<Rightarrow> m),
      operationIdCounter = 0, allocated = 0\<rparr>"

text \<open>\<open>now\<close> is the value \<^verbatim>\<open>Date.now()\<close> returns during the call.\<close>

definition addOperation :: "int \<Rightarrow> jsobj \<Rightarrow> DrawingState \<Rightarrow> operation \<times> DrawingState" where
  "addOperation now operation s =
     (let counter = operationIdCounter s + 1;
          op = \<lparr>ref = allocated s,
                props = spread [(''id'', JNum counter), (''timestamp'', JNum now)] operation\<rparr>;
          pushed = operations s @ [op];
          kept = (if int (length pushed) > maxOperations s
                  then js_slice (- maxOperations s) pushed else pushed)
      in (op, s\<lparr>operations := kept, redoStack := [],
                operationIdCounter := counter, allocated := Suc (allocated s)\<rparr>))"

text \<open>
  The result object of \<^verbatim>\<open>undo\<close> and \<^verbatim>\<open>redo\<close>: \<^verbatim>\<open>{success: false, message}\<close> or
  \<^verbatim>\<open>{success: true, operations}\<close>.
\<close>

datatype result = Failure string | Success "operation list"

fun success :: "result \<Rightarrow> bool" where
  "success (Failure m) = False"
| "success (Success ops) = True"

definition undo :: "DrawingState \<Rightarrow> result \<times> DrawingState" where
  "undo s =
     (if length (operations s) = 0 then (Failure ''Nothing to undo'', s)
      else
        let lastOp = last (operations s);
            s' = s\<lparr>operations := butlast (operations s),
                   redoStack := redoStack s @ [lastOp]\<rparr>
        in (Success (operations s'), s'))"

definition redo :: "DrawingState \<Rightarrow> result \<times> DrawingState" where
  "redo s =
     (if length (redoStack s) = 0 then (Failure ''Nothing to redo'', s)
      else
        let op = last (redoStack s);
            s' = s\<lparr>redoStack := butlast (redoStack s),
                   operations := operations s @ [op]\<rparr>
        in (Success (operations s'), s'))"

definition clear :: "DrawingState \<Rightarrow> DrawingState" where
  "clear s = s\<lparr>operations := [], redoStack := []\<rparr>"

definition op_id :: "operation \<Rightarrow> jsval" where
  "op_id op = js_get (props op) ''id''"

definition getOperationsSince ::
  "(jsval \<Rightarrow> jsval \<Rightarrow> bool) \<Rightarrow> jsval \<Rightarrow> DrawingState \<Rightarrow> operation list" where
  "getOperationsSince coerce_gt sinceId s =
     filter (\<lambda>op. js_gt coerce_gt (op_id op) sinceId) (operations s)"

text \<open>The \<^verbatim>\<open>lastOperationId\<close> of \<^verbatim>\<open>getSnapshot\<close>.\<close>

definition lastOperationId :: "DrawingState \<Rightarrow> jsval" where
  "lastOperationId s =
     (if length (operations s) > 0 then op_id (last (operations s)) else JNull)"

text \<open>
  A client of the log: the calls that mutate it, and a run of them from a fresh log.
\<close>

datatype log_call = Append int jsobj | Undo | Redo | Clear

fun log_step :: "log_call \<Rightarrow> DrawingState \<Rightarrow> DrawingState" where
  "log_step (Append now payload) s = snd (addOperation now payload s)"
| "log_step Undo s = snd (undo s)"
| "log_step Redo s = snd (redo s)"
| "log_step Clear s = clear s"

definition log_run :: "log_call list \<Rightarrow> DrawingState \<Rightarrow> DrawingState" where
  "log_run calls s = fold log_step calls s"

section \<open>Transports\<close>

text \<open>
  A WebSocket is an object of the \<^verbatim>\<open>ws\<close> library, shared by reference between the
  network layer and the user records, so the model names it by an address. The network
  state holds what the code reads and writes through it: \<^verbatim>\<open>readyState\<close>
  (0 connecting, 1 open, 2 closing, 3 closed) and the frames handed to \<^verbatim>\<open>send\<close>, in
  the order of the calls.
\<close>

type_synonym sock = nat

record net =
  readyState :: "sock \<Rightarrow> nat"
  sent :: "(sock \<times> string) list"

definition WebSocket_OPEN :: nat where
  "WebSocket_OPEN = 1"

definition ws_send :: "sock \<Rightarrow> string \<Rightarrow> net \<Rightarrow> net" where
  "ws_send w frame n = n\<lparr>sent := sent n @ [(w, frame)]\<rparr>"

section \<open>The room registry: \<^verbatim>\<open>src/server/rooms.js\<close>\<close>

text \<open>
  A user entry of a room is \<^verbatim>\<open>{...userInfo, joinedAt}\<close>. Its \<^verbatim>\<open>ws\<close> property, when
  it is a socket, is \<open>Some\<close> of the socket; an entry without one (or with a falsy one)
  has \<open>None\<close>. The other properties are plain data.
\<close>

record room_user =
  ru_ws :: "sock option"
  ru_props :: jsobj

text \<open>A \<^verbatim>\<open>Map\<close> is the list of its entries in insertion order.\<close>

record room =
  room_id :: string
  room_users :: "(string \<times> room_user) list"
  room_drawingState :: DrawingState
  room_createdAt :: int

record RoomManager =
  rooms :: "(string \<times> room) list"
  defaultRoomId :: string

definition createRoom :: "int \<Rightarrow> string \<Rightarrow> RoomManager \<Rightarrow> room \<times> RoomManager" where
  "createRoom now roomId m =
     (case map_of (rooms m) roomId of
        Some existing \<Rightarrow> (existing, m)
      | None \<Rightarrow>
          let r = \<lparr>room_id = roomId, room_users = [],
                   room_drawingState = DrawingState_new None,
                   room_createdAt = now\<rparr>
          in (r, m\<lparr>rooms := AList.update roomId r (rooms m)\<rparr>))"

definition RoomManager_new :: "int \<Rightarrow> RoomManager" where
  "RoomManager_new now =
     snd (createRoom now ''default'' \<lparr>rooms = [], defaultRoomId = ''default''\<rparr>)"

definition getRoom :: "string \<Rightarrow> RoomManager \<Rightarrow> room option" where
  "getRoom roomId m = map_of (rooms m) roomId"

definition getOrCreateRoom :: "int \<Rightarrow> string \<Rightarrow> RoomManager \<Rightarrow> room \<times> RoomManager" where
  "getOrCreateRoom now roomId m =
     (case getRoom roomId m of Some r \<Rightarrow> (r, m) | None \<Rightarrow> createRoom now roomId m)"

text \<open>
  \<open>created\<close> and \<open>joined\<close> are the two readings of the clock: the one \<^verbatim>\<open>createRoom\<close>
  takes when the room is new, and the one stored as \<^verbatim>\<open>joinedAt\<close>.
\<close>

definition addUserToRoom ::
  "int \<Rightarrow> int \<Rightarrow> string \<Rightarrow> string \<Rightarrow> room_user \<Rightarrow> RoomManager \<Rightarrow> RoomManager" where
  "addUserToRoom created joined roomId userId userInfo m =
     (let (r, m1) = getOrCreateRoom created roomId m;
          entry = userInfo\<lparr>ru_props := spread (ru_props userInfo) [(''joinedAt'', JNum joined)]\<rparr>;
          r' = r\<lparr>room_users := AList.update userId entry (room_users r)\<rparr>
      in m1\<lparr>rooms := AList.update roomId r' (rooms m1)\<rparr>)"

definition deleteRoom :: "string \<Rightarrow> RoomManager \<Rightarrow> RoomManager" where
  "deleteRoom roomId m =
     (if roomId \<noteq> defaultRoomId m then m\<lparr>rooms := AList.delete roomId (rooms m)\<rparr> else m)"

definition removeUserFromRoom :: "string \<Rightarrow> string \<Rightarrow> RoomManager \<Rightarrow> RoomManager" where
  "removeUserFromRoom roomId userId m =
     (case getRoom roomId m of
        None \<Rightarrow> m
      | Some r \<Rightarrow>
          let r' = r\<lparr>room_users := AList.delete userId (room_users r)\<rparr>;
              m1 = m\<lparr>rooms := AList.update roomId r' (rooms m)\<rparr>
          in if length (room_users r') = 0 \<and> roomId \<noteq> defaultRoomId m1
             then deleteRoom roomId m1 else m1)"

text \<open>
  The body of the \<^verbatim>\<open>forEach\<close> of \<^verbatim>\<open>broadcastToRoom\<close>, one user after the other.
  \<open>excludeUserId\<close> is \<open>None\<close> for the default \<^verbatim>\<open>null\<close>.
\<close>

fun room_forEach ::
  "string \<Rightarrow> string option \<Rightarrow> (string \<times> room_user) list \<Rightarrow> net \<Rightarrow> net" where
  "room_forEach messageStr excludeUserId [] n = n"
| "room_forEach messageStr excludeUserId ((userId, user) # rest) n =
     room_forEach messageStr excludeUserId rest
       (case ru_ws user of
          Some w \<Rightarrow>
            if Some userId \<noteq> excludeUserId \<and> readyState n w = 1
            then ws_send w messageStr n else n
        | None \<Rightarrow> n)"

text \<open>\<open>stringify\<close> is \<^verbatim>\<open>JSON.stringify\<close>.\<close>

definition broadcastToRoom ::
  "(jsval \<Rightarrow> string) \<Rightarrow> string \<Rightarrow> jsval \<Rightarrow> string option \<Rightarrow> RoomManager \<Rightarrow> net \<Rightarrow> net" where
  "broadcastToRoom stringify roomId message excludeUserId m n =
     (case getRoom roomId m of
        None \<Rightarrow> n
      | Some r \<Rightarrow>
          let messageStr = stringify message
          in room_forEach messageStr excludeUserId (room_users r) n)"

text \<open>A client of the registry: the calls that change it, run from a new registry.\<close>

datatype registry_call =
    CreateRoom int string
  | GetOrCreateRoom int string
  | AddUserToRoom int int string string room_user
  | RemoveUserFromRoom string string
  | DeleteRoom string

fun registry_step :: "registry_call \<Rightarrow> RoomManager \<Rightarrow> RoomManager" where
  "registry_step (CreateRoom now roomId) m = snd (createRoom now roomId m)"
| "registry_step (GetOrCreateRoom now roomId) m = snd (getOrCreateRoom now roomId m)"
| "registry_step (AddUserToRoom created joined roomId userId userInfo) m =
     addUserToRoom created joined roomId userId userInfo m"
| "registry_step (RemoveUserFromRoom roomId userId) m = removeUserFromRoom roomId userId m"
| "registry_step (DeleteRoom roomId) m = deleteRoom roomId m"

definition registry_run :: "registry_call list \<Rightarrow> RoomManager \<Rightarrow> RoomManager" where
  "registry_run calls m = fold registry_step calls m"

section \<open>The connection handler: the server entry file\<close>

record user =
  user_id :: string
  username :: string
  color :: string
  ws :: sock

text \<open>
  The module-level state the handlers share: the log, the \<^verbatim>\<open>users\<close> map and the
  network. Writes to the console are not modelled.
\<close>

record server =
  drawingState :: DrawingState
  users :: "(string \<times> user) list"
  network :: net

text \<open>The body of the \<^verbatim>\<open>forEach\<close> of \<^verbatim>\<open>broadcast\<close>.\<close>

fun users_forEach ::
  "string \<Rightarrow> string option \<Rightarrow> (string \<times> user) list \<Rightarrow> net \<Rightarrow> net" where
  "users_forEach messageStr excludeUserId [] n = n"
| "users_forEach messageStr excludeUserId ((userId, u) # rest) n =
     users_forEach messageStr excludeUserId rest
       (if Some userId \<noteq> excludeUserId \<and> readyState n (ws u) = WebSocket_OPEN
        then ws_send (ws u) messageStr n else n)"

definition broadcast ::
  "(jsval \<Rightarrow> string) \<Rightarrow> jsval \<Rightarrow> string option \<Rightarrow> server \<Rightarrow> server" where
  "broadcast stringify message excludeUserId srv =
     (let messageStr = stringify message
      in srv\<lparr>network := users_forEach messageStr excludeUserId (users srv) (network srv)\<rparr>)"

definition handleDraw ::
  "(jsval \<Rightarrow> string) \<Rightarrow> int \<Rightarrow> string \<Rightarrow> jsval \<Rightarrow> server \<Rightarrow> server" where
  "handleDraw stringify now userId drawData srv =
     (let (operation, log) =
            addOperation now
              [(''type'', JStr ''draw''), (''userId'', JStr userId), (''data'', drawData)]
              (drawingState srv);
          srv1 = srv\<lparr>drawingState := log\<rparr>
      in broadcast stringify
           (JObj [(''type'', JStr ''draw''), (''userId'', JStr userId), (''data'', drawData)])
           None srv1)"

definition handleCursor :: "(jsval \<Rightarrow> string) \<Rightarrow> string \<Rightarrow> jsobj \<Rightarrow> server \<Rightarrow> server" where
  "handleCursor stringify userId data srv =
     broadcast stringify
       (JObj [(''type'', JStr ''cursor''), (''userId'', JStr userId),
              (''x'', js_get data ''x''), (''y'', js_get data ''y'')])
       (Some userId) srv"

text \<open>
  What a broadcast is expected to hand to the transports: one frame for each user, in
  the order of the map, whose key is not the excluded one and whose socket is open.
\<close>

definition recipients :: "net \<Rightarrow> string option \<Rightarrow> (string \<times> user) list \<Rightarrow> sock list" where
  "recipients n excludeUserId us =
     map (\<lambda>(userId, u). ws u)
       (filter (\<lambda>(userId, u). Some userId \<noteq> excludeUserId \<and> readyState n (ws u) = 1) us)"

definition room_recipients ::
  "net \<Rightarrow> string option \<Rightarrow> (string \<times> room_user) list \<Rightarrow> sock list" where
  "room_recipients n excludeUserId us =
     concat (map (\<lambda>(userId, u).
        case ru_ws u of
          Some w \<Rightarrow> if Some userId \<noteq> excludeUserId \<and> readyState n w = 1 then [w] else []
        | None \<Rightarrow> []) us)"

section \<open>Auxiliary notions for the statements\<close>

text \<open>
  A run of appends only, keeping the operations the calls return.
\<close>

fun append_all :: "(int \<times> jsobj) list \<Rightarrow> DrawingState \<Rightarrow> operation list \<times> DrawingState" where
  "append_all [] s = ([], s)"
| "append_all ((now, payload) # rest) s =
     (let (op, s1) = addOperation now payload s;
          (ops, s2) = append_all rest s1
      in (op # ops, s2))"

text \<open>
  A payload that is an object with distinct keys and no \<^verbatim>\<open>id\<close> of its own: what
  \<^verbatim>\<open>handleDraw\<close> passes. A call is plain when it appends such a payload or appends
  nothing.
\<close>

definition plain_payload :: "jsobj \<Rightarrow> bool" where
  "plain_payload p \<longleftrightarrow> distinct (map fst p) \<and> map_of p ''id'' = None"

fun plain_call :: "log_call \<Rightarrow> bool" where
  "plain_call (Append now payload) = plain_payload payload"
| "plain_call c = True"

text \<open>
  The ids of \<open>ops\<close> are numbers that increase strictly from left to right, all above
  \<open>lo\<close> and none above \<open>hi\<close>.
\<close>

fun ascending_ids :: "int \<Rightarrow> int \<Rightarrow> operation list \<Rightarrow> bool" where
  "ascending_ids lo hi [] = (lo \<le> hi)"
| "ascending_ids lo hi (op # ops) =
     (case op_id op of JNum n \<Rightarrow> lo < n \<and> ascending_ids n hi ops | _ \<Rightarrow> False)"

text \<open>
  Undo moves the newest entry to the top of the redo stack, so the entries followed by
  the redo stack read from its top are the operations in the order they were appended.
\<close>

definition ids_inv :: "DrawingState \<Rightarrow> bool" where
  "ids_inv s = ascending_ids 0 (operationIdCounter s) (operations s @ rev (redoStack s))"

text \<open>
  No operation object occurs twice in the log, and every address in use was handed out
  by the log.
\<close>

definition log_inv :: "DrawingState \<Rightarrow> bool" where
  "log_inv s \<longleftrightarrow>
     distinct (map ref (operations s @ redoStack s))
     \<and> (\<forall>op \<in> set (operations s @ redoStack s). ref op < allocated s)"

definition registry_inv :: "RoomManager \<Rightarrow> bool" where
  "registry_inv m \<longleftrightarrow> defaultRoomId m = ''default'' \<and> map_of (rooms m) ''default'' \<noteq> None"

text \<open>
  Concrete states for the instances below: a serializer that keeps only the message
  type, a network where socket 2 is closed and the others are open, the server with three
  connected users, a registry whose room \<open>r1\<close> has five users, and a registry with
  one user in \<open>r1\<close> and one in the default room.
\<close>

definition frame_tag :: "jsval \<Rightarrow> string" where
  "frame_tag v =
     (case v of JObj ps \<Rightarrow> (case js_get ps ''type'' of JStr t \<Rightarrow> t | _ \<Rightarrow> []) | _ \<Rightarrow> [])"

definition example_net :: net where
  "example_net = \<lparr>readyState = (\<lambda>w. if w = 2 then 3 else 1), sent = []\<rparr>"

definition example_server :: server where
  "example_server =
     \<lparr>drawingState = DrawingState_new None,
      users =
        [(''user_1'', \<lparr>user_id = ''user_1'', username = ''BoldMaker7'',
                       color = ''#e74c3c'', ws = 0\<rparr>),
         (''user_2'', \<lparr>user_id = ''user_2'', username = ''CoolArtist42'',
                       color = ''#3498db'', ws = 1\<rparr>),
         (''user_3'', \<lparr>user_id = ''user_3'', username = ''SwiftDrawer3'',
                       color = ''#2ecc71'', ws = 2\<rparr>)],
      network = example_net\<rparr>"

text \<open>
  A serializer that writes a value out in full: numbers in decimal, strings as they are,
  objects as \<^verbatim>\<open>{key:value,...}\<close> without the properties whose value is
  \<^verbatim>\<open>undefined\<close>. Then a server whose log already holds one operation.
\<close>

function dec :: "nat \<Rightarrow> string" where
  "dec n = (if n < 10 then [''0123456789'' ! n]
            else dec (n div 10) @ [''0123456789'' ! (n mod 10)])"
  by pat_completeness auto
termination
  by (relation "measure (\<lambda>n. n)") auto

declare dec.simps [simp del]

fun join :: "string \<Rightarrow> string list \<Rightarrow> string" where
  "join sep [] = []"
| "join sep [x] = x"
| "join sep (x # y # ys) = x @ sep @ join sep (y # ys)"

fun json_text :: "jsval \<Rightarrow> string" where
  "json_text JUndefined = ''undefined''"
| "json_text JNull = ''null''"
| "json_text (JBool b) = (if b then ''true'' else ''false'')"
| "json_text (JNum i) = (if i < 0 then ''-'' @ dec (nat (- i)) else dec (nat i))"
| "json_text (JStr s) = s"
| "json_text (JObj ps) =
     ''{'' @ join '','' (map (\<lambda>p. fst p @ '':'' @ json_text (snd p))
                          (filter (\<lambda>p. snd p \<noteq> JUndefined) ps)) @ ''}''"

definition example_busy_server :: server where
  "example_busy_server =
     example_server\<lparr>drawingState :=
       \<lparr>operations =
          [\<lparr>ref = 0,
            props = [(''id'', JNum 1), (''timestamp'', JNum 1), (''type'', JStr ''draw''),
                     (''userId'', JStr ''user_2''), (''data'', JObj [(''x'', JNum 12)])]\<rparr>],
        redoStack = [], maxOperations = 500, operationIdCounter = 1, allocated = 1\<rparr>\<rparr>"

definition example_registry :: RoomManager where
  "example_registry =
     registry_run
       [AddUserToRoom 1 2 ''r1'' ''alice'' \<lparr>ru_ws = Some 0, ru_props = []\<rparr>,
        AddUserToRoom 1 3 ''r1'' ''bob'' \<lparr>ru_ws = Some 2, ru_props = []\<rparr>,
        AddUserToRoom 1 4 ''r1'' ''carol'' \<lparr>ru_ws = None, ru_props = []\<rparr>,
        AddUserToRoom 1 5 ''r1'' ''dave'' \<lparr>ru_ws = Some 1, ru_props = []\<rparr>,
        AddUserToRoom 1 6 ''r1'' ''erin'' \<lparr>ru_ws = Some 4, ru_props = []\<rparr>]
       (RoomManager_new 0)"

definition example_rooms :: RoomManager where
  "example_rooms =
     registry_run
       [AddUserToRoom 1 2 ''r1'' ''alice'' \<lparr>ru_ws = Some 0, ru_props = []\<rparr>,
        AddUserToRoom 3 4 ''default'' ''bob'' \<lparr>ru_ws = Some 1, ru_props = []\<rparr>,
        DeleteRoom ''default'']
       (RoomManager_new 0)"

section \<open>Object spread and slicing\<close>

lemma map_of_spread:
  "distinct (map fst src) \<Longrightarrow>
   map_of (spread target src) k
     = (case map_of src k of Some v \<Rightarrow> Some v | None \<Rightarrow> map_of target k)"
proof (induction src arbitrary: target)
  case Nil
  then show ?case by (simp add: spread_def)
next
  case (Cons e src)
  obtain k' v' where e: "e = (k', v')" by (cases e)
  from Cons.prems e have d: "distinct (map fst src)" and n: "map_of src k' = None"
    by (auto simp: map_of_eq_None_iff)
  have "map_of (spread target (e # src)) k = map_of (spread (AList.update k' v' target) src) k"
    by (simp add: spread_def e)
  also have "\<dots> = (case map_of src k of Some v \<Rightarrow> Some v
                    | None \<Rightarrow> map_of (AList.update k' v' target) k)"
    using Cons.IH [OF d] by simp
  also have "\<dots> = (case map_of (e # src) k of Some v \<Rightarrow> Some v | None \<Rightarrow> map_of target k)"
    using n by (simp add: e update_conv' split: option.splits)
  finally show ?case .
qed

lemma js_slice_is_drop: "\<exists>n. js_slice k xs = drop n xs"
  by (auto simp: js_slice_def Let_def)

lemma drop_drop_append:
  fixes m :: nat
  shows "drop (length (drop (length xs - m) xs) + length ys - m) (drop (length xs - m) xs @ ys)
         = drop (length xs + length ys - m) (xs @ ys)"
proof (cases "length xs \<le> m")
  case True
  then show ?thesis by simp
next
  case False
  let ?k = "length xs - m"
  from False have a: "length (drop ?k xs) + length ys - m = length ys"
    and b: "length xs + length ys - m = length ys + ?k"
    and c: "length ys + ?k - length xs = length ys - m"
    and d: "length ys - length (drop ?k xs) = length ys - m"
    by simp_all
  have "drop (length ys) (drop ?k xs @ ys) = drop (length ys + ?k) xs @ drop (length ys - m) ys"
    by (simp only: drop_append drop_drop d)
  also have "\<dots> = drop (length ys + ?k) (xs @ ys)"
    by (simp only: drop_append c)
  finally show ?thesis
    by (simp only: a b)
qed

section \<open>Appending to the log\<close>

lemma addOperation_maxOperations:
  "maxOperations (snd (addOperation now p s)) = maxOperations s"
  by (simp add: addOperation_def Let_def)

lemma addOperation_clears_redoStack:
  "redoStack (snd (addOperation now payload s)) = []"
  "fst (redo (snd (addOperation now payload s))) = Failure ''Nothing to redo''"
  "operationIdCounter (snd (addOperation now payload s)) = operationIdCounter s + 1"
  by (simp_all add: addOperation_def Let_def redo_def)

text \<open>
  Whatever the cap, what \<^verbatim>\<open>addOperation\<close> keeps is an end piece of the entries with
  the new operation pushed on.
\<close>

lemma addOperation_kept:
  "\<exists>n. operations (snd (addOperation now p s))
         = drop n (operations s @ [fst (addOperation now p s)])"
proof (cases "int (length (operations s @ [fst (addOperation now p s)])) > maxOperations s")
  case True
  obtain n where "js_slice (- maxOperations s) (operations s @ [fst (addOperation now p s)])
                  = drop n (operations s @ [fst (addOperation now p s)])"
    using js_slice_is_drop by blast
  with True show ?thesis
    by (auto simp: addOperation_def Let_def)
next
  case False
  then have "operations (snd (addOperation now p s))
             = drop 0 (operations s @ [fst (addOperation now p s)])"
    by (simp add: addOperation_def Let_def)
  then show ?thesis by blast
qed

text \<open>
  With a cap that is not negative the new operation is the newest entry, and a payload
  without \<^verbatim>\<open>id\<close> and \<^verbatim>\<open>timestamp\<close> gets the next counter value and the clock.
\<close>

lemma addOperation_newest:
  assumes "0 \<le> maxOperations s"
  shows "operations (snd (addOperation now payload s)) \<noteq> []
       \<and> last (operations (snd (addOperation now payload s))) = fst (addOperation now payload s)"
  using assms
  by (auto simp: addOperation_def Let_def js_slice_def max_def)

lemma addOperation_plain_payload:
  assumes "distinct (map fst payload)"
    and "map_of payload ''id'' = None" and "map_of payload ''timestamp'' = None"
  shows "op_id (fst (addOperation now payload s)) = JNum (operationIdCounter s + 1)"
    and "js_get (props (fst (addOperation now payload s))) ''timestamp'' = JNum now"
  using assms
  by (simp_all add: addOperation_def Let_def op_id_def js_get_def map_of_spread)

section \<open>Undo and redo\<close>

text \<open>
  C1. On a log with at least one entry, \<^verbatim>\<open>undo()\<close> followed at once by \<^verbatim>\<open>redo()\<close>
  succeeds twice and gives back the log it started from: the same operations (same
  objects, same ids) in the same order in \<open>operations\<close>, the same \<open>redoStack\<close>, and
  every other field as it was.
\<close>

theorem undo_then_redo_restores:
  assumes "operations s \<noteq> []"
  shows "success (fst (undo s))
       \<and> success (fst (redo (snd (undo s))))
       \<and> operations (snd (redo (snd (undo s)))) = operations s
       \<and> redoStack (snd (redo (snd (undo s)))) = redoStack s
       \<and> snd (redo (snd (undo s))) = s"
  using assms by (simp add: undo_def redo_def Let_def)

text \<open>An instance: the log after one append to a new log.\<close>

theorem undo_then_redo_restores_witness:
  "operations (snd (addOperation 7 [] (DrawingState_new None))) \<noteq> []
   \<and> snd (redo (snd (undo (snd (addOperation 7 [] (DrawingState_new None))))))
       = snd (addOperation 7 [] (DrawingState_new None))"
  using undo_then_redo_restores [of "snd (addOperation 7 [] (DrawingState_new None))"]
  by (simp add: addOperation_def DrawingState_new_def Let_def spread_def)

text \<open>
  The message of the failure result starts with a capital letter in the code; it is not
  the lower-case string.
\<close>

theorem undo_reason_counterexample:
  "fst (undo (DrawingState_new None)) \<noteq> Failure ''nothing to undo''
   \<and> fst (redo (DrawingState_new None)) \<noteq> Failure ''nothing to redo''"
  by (simp add: undo_def redo_def DrawingState_new_def)

text \<open>
  C3, with the messages as the code has them. \<^verbatim>\<open>undo()\<close> fails exactly when
  \<open>operations\<close> is empty, and then it returns the failure result with the message
  \<^verbatim>\<open>Nothing to undo\<close> and the log as it was; \<^verbatim>\<open>redo()\<close> fails exactly when
  \<open>redoStack\<close> is empty, and then it returns the failure result with the message
  \<^verbatim>\<open>Nothing to redo\<close> and the log as it was.
\<close>

theorem undo_redo_fail_iff_empty:
  "(\<not> success (fst (undo s)) \<longleftrightarrow> operations s = [])
   \<and> (operations s = [] \<longrightarrow> undo s = (Failure ''Nothing to undo'', s))
   \<and> (\<not> success (fst (redo s)) \<longleftrightarrow> redoStack s = [])
   \<and> (redoStack s = [] \<longrightarrow> redo s = (Failure ''Nothing to redo'', s))"
  by (simp add: undo_def redo_def Let_def)

text \<open>An instance: a new log, where both fail, and the log after one append.\<close>

theorem undo_redo_fail_iff_empty_witness:
  "undo (DrawingState_new None) = (Failure ''Nothing to undo'', DrawingState_new None)
   \<and> redo (DrawingState_new None) = (Failure ''Nothing to redo'', DrawingState_new None)
   \<and> success (fst (undo (snd (addOperation 7 [] (DrawingState_new None)))))"
  using undo_redo_fail_iff_empty [of "DrawingState_new None"]
    undo_redo_fail_iff_empty [of "snd (addOperation 7 [] (DrawingState_new None))"]
  by (simp add: DrawingState_new_def addOperation_def Let_def spread_def)

section \<open>What an append returns\<close>

text \<open>
  C4, at a payload that carries \<^verbatim>\<open>id\<close> and \<^verbatim>\<open>timestamp\<close> of its own. The first
  append to a new log, at clock 1000, with payload \<^verbatim>\<open>{id: 99, timestamp: 5}\<close> returns an
  operation whose id is 99 and whose timestamp is 5: not the next id 1 and not the clock.
  The counter moves to 1 all the same.
\<close>

theorem addOperation_returns_payload_id:
  "op_id (fst (addOperation 1000 [(''id'', JNum 99), (''timestamp'', JNum 5)]
      (DrawingState_new None))) = JNum 99
   \<and> js_get (props (fst (addOperation 1000 [(''id'', JNum 99), (''timestamp'', JNum 5)]
        (DrawingState_new None)))) ''timestamp'' = JNum 5
   \<and> operationIdCounter (snd (addOperation 1000 [(''id'', JNum 99), (''timestamp'', JNum 5)]
        (DrawingState_new None))) = 1"
  by (simp add: addOperation_def DrawingState_new_def Let_def spread_def op_id_def js_get_def)

text \<open>
  C10. The record is built as \<^verbatim>\<open>{id, timestamp, ...operation}\<close>, so a property of the
  payload named \<^verbatim>\<open>id\<close> or \<^verbatim>\<open>timestamp\<close> replaces the value the log assigned: the
  returned operation carries the caller's value. The counter is incremented in any case,
  and (the cap not being negative) the operation returned is the one stored as newest
  entry.
\<close>

theorem payload_fields_override:
  assumes "distinct (map fst payload)"
  shows "(map_of payload ''id'' = Some v \<longrightarrow> op_id (fst (addOperation now payload s)) = v)
       \<and> (map_of payload ''timestamp'' = Some t \<longrightarrow>
            js_get (props (fst (addOperation now payload s))) ''timestamp'' = t)
       \<and> operationIdCounter (snd (addOperation now payload s)) = operationIdCounter s + 1
       \<and> (0 \<le> maxOperations s \<longrightarrow>
            last (operations (snd (addOperation now payload s))) = fst (addOperation now payload s))"
proof -
  have "0 \<le> maxOperations s \<Longrightarrow>
        last (operations (snd (addOperation now payload s))) = fst (addOperation now payload s)"
    using addOperation_newest by blast
  moreover have "operationIdCounter (snd (addOperation now payload s)) = operationIdCounter s + 1"
    by (simp add: addOperation_clears_redoStack)
  moreover have "map_of payload ''id'' = Some v \<Longrightarrow> op_id (fst (addOperation now payload s)) = v"
    using assms by (simp add: addOperation_def Let_def op_id_def js_get_def map_of_spread)
  moreover have "map_of payload ''timestamp'' = Some t \<Longrightarrow>
        js_get (props (fst (addOperation now payload s))) ''timestamp'' = t"
    using assms by (simp add: addOperation_def Let_def js_get_def map_of_spread)
  ultimately show ?thesis by blast
qed

text \<open>
  An instance: the payload \<^verbatim>\<open>{id: "mine", timestamp: 0}\<close> on a new log. The operation
  comes back with the id \<^verbatim>\<open>"mine"\<close>, which is not the assigned id 1.
\<close>

theorem payload_fields_override_witness:
  "distinct (map fst [(''id'', JStr ''mine''), (''timestamp'', JNum 0)])
   \<and> op_id (fst (addOperation 1700000000000 [(''id'', JStr ''mine''), (''timestamp'', JNum 0)]
        (DrawingState_new None))) = JStr ''mine''
   \<and> op_id (fst (addOperation 1700000000000 [(''id'', JStr ''mine''), (''timestamp'', JNum 0)]
        (DrawingState_new None))) \<noteq> JNum 1
   \<and> js_get (props (fst (addOperation 1700000000000
        [(''id'', JStr ''mine''), (''timestamp'', JNum 0)] (DrawingState_new None))))
        ''timestamp'' = JNum 0
   \<and> operationIdCounter (snd (addOperation 1700000000000
        [(''id'', JStr ''mine''), (''timestamp'', JNum 0)] (DrawingState_new None))) = 1
   \<and> op_id (last (operations (snd (addOperation 1700000000000
        [(''id'', JStr ''mine''), (''timestamp'', JNum 0)] (DrawingState_new None)))))
       = JStr ''mine''"
  using payload_fields_override [of "[(''id'', JStr ''mine''), (''timestamp'', JNum 0)]"
      "JStr ''mine''" 1700000000000 "DrawingState_new None" "JNum 0"]
  by (simp add: DrawingState_new_def)

section \<open>The cap\<close>

text \<open>
  With a cap of at least one, an append keeps the last \<open>maxOperations\<close> of the entries
  with the new operation pushed on, and so does a run of appends: the log holds the most
  recent operations, never more than the cap.
\<close>

lemma addOperation_keeps_most_recent:
  assumes "1 \<le> maxOperations s"
  shows "operations (snd (addOperation now p s))
         = drop (Suc (length (operations s)) - nat (maxOperations s))
             (operations s @ [fst (addOperation now p s)])"
proof (cases "int (Suc (length (operations s))) > maxOperations s")
  case True
  with assms have "nat (1 + int (length (operations s)) - maxOperations s)
                   = Suc (length (operations s)) - nat (maxOperations s)"
    by linarith
  with True assms show ?thesis
    by (simp add: addOperation_def Let_def js_slice_def max_def)
next
  case False
  then have "Suc (length (operations s)) - nat (maxOperations s) = 0"
    by linarith
  with False show ?thesis
    by (simp add: addOperation_def Let_def)
qed

lemma append_all_keeps_most_recent:
  assumes "1 \<le> maxOperations s" and "int (length (operations s)) \<le> maxOperations s"
  shows "operations (snd (append_all ps s))
         = drop (length (operations s) + length (fst (append_all ps s)) - nat (maxOperations s))
             (operations s @ fst (append_all ps s))
       \<and> int (length (operations (snd (append_all ps s)))) \<le> maxOperations s"
  using assms
proof (induction ps arbitrary: s)
  case Nil
  then show ?case by simp
next
  case (Cons e ps)
  obtain now p where e: "e = (now, p)" by (cases e)
  let ?op = "fst (addOperation now p s)"
  let ?s1 = "snd (addOperation now p s)"
  let ?m = "nat (maxOperations s)"
  let ?xs = "operations s @ [?op]"
  let ?rest = "fst (append_all ps ?s1)"
  have m1: "1 \<le> maxOperations ?s1" and mm: "maxOperations ?s1 = maxOperations s"
    using Cons.prems by (simp_all add: addOperation_maxOperations)
  have o1: "operations ?s1 = drop (length ?xs - ?m) ?xs"
    using addOperation_keeps_most_recent [OF Cons.prems(1)] by simp
  have l1: "int (length (operations ?s1)) \<le> maxOperations ?s1"
    unfolding o1 mm using Cons.prems(1) by simp
  note ih = Cons.IH [OF m1 l1]
  have r: "snd (append_all (e # ps) s) = snd (append_all ps ?s1)"
    and f: "fst (append_all (e # ps) s) = ?op # ?rest"
    by (simp_all add: e split_def Let_def)
  have "operations (snd (append_all ps ?s1))
        = drop (length (drop (length ?xs - ?m) ?xs) + length ?rest - ?m)
            (drop (length ?xs - ?m) ?xs @ ?rest)"
    using ih [THEN conjunct1] by (simp only: o1 mm)
  also have "\<dots> = drop (length ?xs + length ?rest - ?m) (?xs @ ?rest)"
    by (rule drop_drop_append)
  finally have "operations (snd (append_all (e # ps) s))
        = drop (length (operations s) + length (?op # ?rest) - ?m) (operations s @ ?op # ?rest)"
    by (simp add: r)
  moreover have "int (length (operations (snd (append_all (e # ps) s)))) \<le> maxOperations s"
    using ih [THEN conjunct2] by (simp only: r mm)
  ultimately show ?case
    by (simp only: f)
qed

text \<open>
  C2, at the cap 0. A log constructed with \<^verbatim>\<open>new DrawingState(0)\<close> keeps all three of
  three appended operations: \<^verbatim>\<open>slice(-0)\<close> is \<^verbatim>\<open>slice(0)\<close>, the whole array. The
  length of \<open>operations\<close> is 3 and the cap is 0.
\<close>

theorem cap_zero_keeps_every_entry:
  "maxOperations (log_run [Append 1 [], Append 2 [], Append 3 []] (DrawingState_new (Some 0))) = 0
   \<and> map op_id (operations
        (log_run [Append 1 [], Append 2 [], Append 3 []] (DrawingState_new (Some 0))))
       = [JNum 1, JNum 2, JNum 3]
   \<and> length (operations
        (log_run [Append 1 [], Append 2 [], Append 3 []] (DrawingState_new (Some 0)))) = 3"
  by (simp add: log_run_def addOperation_def DrawingState_new_def Let_def spread_def
      js_slice_def op_id_def js_get_def)

section \<open>Entries and redo stack\<close>

lemma log_inv_new: "log_inv (DrawingState_new m)"
  by (simp add: log_inv_def DrawingState_new_def)

lemma log_inv_addOperation:
  assumes "log_inv s"
  shows "log_inv (snd (addOperation now p s))"
proof -
  let ?op = "fst (addOperation now p s)"
  let ?pushed = "operations s @ [?op]"
  have r: "ref ?op = allocated s"
    by (simp add: addOperation_def Let_def)
  from assms have d: "distinct (map ref (operations s))"
    and b: "\<forall>op \<in> set (operations s). ref op < allocated s"
    by (auto simp: log_inv_def)
  from d b r have dp: "distinct (map ref ?pushed)" by auto
  from b r have bp: "\<forall>op \<in> set ?pushed. ref op < Suc (allocated s)" by auto
  obtain n where k: "operations (snd (addOperation now p s)) = drop n ?pushed"
    using addOperation_kept by blast
  have rs: "redoStack (snd (addOperation now p s)) = []"
    and al: "allocated (snd (addOperation now p s)) = Suc (allocated s)"
    by (simp_all add: addOperation_def Let_def)
  have "distinct (drop n (map ref ?pushed))"
    using dp by (rule distinct_drop)
  then have "distinct (map ref (drop n ?pushed))"
    by (simp only: drop_map)
  moreover have "\<forall>op \<in> set (drop n ?pushed). ref op < Suc (allocated s)"
    using bp by (meson in_set_dropD)
  ultimately show ?thesis
    by (simp add: log_inv_def k rs al)
qed

lemma log_inv_undo:
  assumes "log_inv s"
  shows "log_inv (snd (undo s))"
proof (cases "operations s" rule: rev_cases)
  case Nil
  with assms show ?thesis by (simp add: undo_def)
next
  case (snoc xs x)
  with assms show ?thesis
    by (auto simp: undo_def log_inv_def Let_def)
qed

lemma log_inv_redo:
  assumes "log_inv s"
  shows "log_inv (snd (redo s))"
proof (cases "redoStack s" rule: rev_cases)
  case Nil
  with assms show ?thesis by (simp add: redo_def)
next
  case (snoc xs x)
  with assms show ?thesis
    by (auto simp: redo_def log_inv_def Let_def)
qed

lemma log_inv_clear: "log_inv s \<Longrightarrow> log_inv (clear s)"
  by (simp add: log_inv_def clear_def)

lemma log_inv_step: "log_inv s \<Longrightarrow> log_inv (log_step c s)"
  by (cases c) (simp_all add: log_inv_addOperation log_inv_undo log_inv_redo log_inv_clear)

lemma log_inv_run: "log_inv s \<Longrightarrow> log_inv (log_run calls s)"
  unfolding log_run_def
  by (induction calls arbitrary: s) (simp_all add: log_inv_step)

text \<open>
  C5. After any sequence of \<^verbatim>\<open>addOperation\<close>, \<^verbatim>\<open>undo\<close>, \<^verbatim>\<open>redo\<close> and
  \<^verbatim>\<open>clear\<close> calls on a new log, whatever its cap and whatever the payloads, no operation
  is in both \<open>operations\<close> and \<open>redoStack\<close>: the two hold different objects.
\<close>

theorem operations_redoStack_disjoint:
  "set (operations (log_run calls (DrawingState_new maxOps)))
     \<inter> set (redoStack (log_run calls (DrawingState_new maxOps))) = {}
   \<and> set (map ref (operations (log_run calls (DrawingState_new maxOps))))
     \<inter> set (map ref (redoStack (log_run calls (DrawingState_new maxOps)))) = {}"
proof -
  let ?s = "log_run calls (DrawingState_new maxOps)"
  have "log_inv ?s"
    by (rule log_inv_run) (rule log_inv_new)
  then have d: "distinct (map ref (operations ?s) @ map ref (redoStack ?s))"
    by (simp add: log_inv_def)
  then have r: "set (map ref (operations ?s)) \<inter> set (map ref (redoStack ?s)) = {}"
    by (simp only: distinct_append)
  then have "set (operations ?s) \<inter> set (redoStack ?s) = {}"
    by auto
  with r show ?thesis by simp
qed

section \<open>Operations since an id\<close>

text \<open>
  As long as no payload brings an \<^verbatim>\<open>id\<close> of its own, the ids in the log are numbers
  in strictly ascending order, and asking for the operations since the id of the newest
  entry, or since any greater number, gives nothing.
\<close>

lemma ascending_ids_bounds: "ascending_ids lo hi ops \<Longrightarrow> lo \<le> hi"
proof (induction ops arbitrary: lo)
  case Nil
  then show ?case by simp
next
  case (Cons op ops)
  then obtain n where "lo < n" "ascending_ids n hi ops"
    by (auto split: jsval.splits)
  with Cons.IH [of n] show ?case by simp
qed

lemma ascending_ids_lower: "ascending_ids lo hi ops \<Longrightarrow> lo' \<le> lo \<Longrightarrow> ascending_ids lo' hi ops"
  by (cases ops) (auto split: jsval.splits)

lemma ascending_ids_tail: "ascending_ids lo hi (op # ops) \<Longrightarrow> ascending_ids lo hi ops"
  by (auto split: jsval.splits intro: ascending_ids_lower)

lemma ascending_ids_drop: "ascending_ids lo hi ops \<Longrightarrow> ascending_ids lo hi (drop n ops)"
proof (induction n arbitrary: ops)
  case 0
  then show ?case by simp
next
  case (Suc n)
  then show ?case
    by (cases ops) (auto dest: ascending_ids_tail simp del: ascending_ids.simps)
qed

lemma ascending_ids_prefix: "ascending_ids lo hi (xs @ ys) \<Longrightarrow> ascending_ids lo hi xs"
  by (induction xs arbitrary: lo) (auto split: jsval.splits dest: ascending_ids_bounds)

lemma ascending_ids_snoc:
  "ascending_ids lo hi xs \<Longrightarrow> op_id op = JNum (hi + 1) \<Longrightarrow> ascending_ids lo (hi + 1) (xs @ [op])"
  by (induction xs arbitrary: lo) (auto split: jsval.splits)

lemma ascending_ids_last:
  "ascending_ids lo hi xs \<Longrightarrow> xs \<noteq> [] \<Longrightarrow> op_id (last xs) = JNum l \<Longrightarrow>
   op \<in> set xs \<Longrightarrow> \<exists>i. op_id op = JNum i \<and> i \<le> l"
proof (induction xs arbitrary: lo op)
  case Nil
  then show ?case by simp
next
  case (Cons x xs)
  from Cons.prems(1) obtain n where n: "op_id x = JNum n" "lo < n" "ascending_ids n hi xs"
    by (auto split: jsval.splits)
  show ?case
  proof (cases "xs = []")
    case True
    with Cons.prems n show ?thesis by auto
  next
    case False
    with Cons.prems have l: "op_id (last xs) = JNum l" by simp
    have t: "\<exists>i. op_id y = JNum i \<and> i \<le> l" if "y \<in> set xs" for y
      using Cons.IH [OF n(3) False l that] .
    from False have "last xs \<in> set xs" by simp
    moreover from n(3) False obtain k where "op_id (hd xs) = JNum k" "n < k"
      by (cases xs) (auto split: jsval.splits)
    moreover have "hd xs \<in> set xs" using False by simp
    ultimately have "n \<le> l" using t [of "hd xs"] by auto
    with Cons.prems(4) n t show ?thesis by auto
  qed
qed

lemma ids_inv_new: "ids_inv (DrawingState_new m)"
  by (simp add: ids_inv_def DrawingState_new_def)

lemma ids_inv_addOperation:
  assumes "ids_inv s" and "plain_payload p"
  shows "ids_inv (snd (addOperation now p s))"
proof -
  let ?op = "fst (addOperation now p s)"
  from assms(1) have a: "ascending_ids 0 (operationIdCounter s) (operations s)"
    unfolding ids_inv_def by (rule ascending_ids_prefix)
  from assms(2) have i: "op_id ?op = JNum (operationIdCounter s + 1)"
    by (simp add: plain_payload_def addOperation_def Let_def op_id_def js_get_def map_of_spread)
  from a i have p: "ascending_ids 0 (operationIdCounter s + 1) (operations s @ [?op])"
    by (rule ascending_ids_snoc)
  obtain n where k: "operations (snd (addOperation now p s)) = drop n (operations s @ [?op])"
    using addOperation_kept by blast
  have "ascending_ids 0 (operationIdCounter s + 1) (drop n (operations s @ [?op]))"
    using p by (rule ascending_ids_drop)
  then show ?thesis
    by (simp add: ids_inv_def k addOperation_clears_redoStack)
qed

lemma undo_same_history:
  "operations (snd (undo s)) @ rev (redoStack (snd (undo s))) = operations s @ rev (redoStack s)"
  "operationIdCounter (snd (undo s)) = operationIdCounter s"
  by (cases "operations s" rule: rev_cases; simp add: undo_def Let_def)+

lemma redo_same_history:
  "operations (snd (redo s)) @ rev (redoStack (snd (redo s))) = operations s @ rev (redoStack s)"
  "operationIdCounter (snd (redo s)) = operationIdCounter s"
  by (cases "redoStack s" rule: rev_cases; simp add: redo_def Let_def)+

lemma ids_inv_step: "ids_inv s \<Longrightarrow> plain_call c \<Longrightarrow> ids_inv (log_step c s)"
proof (cases c)
  case (Append now p)
  assume "ids_inv s" "plain_call c"
  with Append show ?thesis by (simp add: ids_inv_addOperation)
next
  case Undo
  assume "ids_inv s"
  with Undo show ?thesis by (simp add: ids_inv_def undo_same_history)
next
  case Redo
  assume "ids_inv s"
  with Redo show ?thesis by (simp add: ids_inv_def redo_same_history)
next
  case Clear
  assume "ids_inv s"
  then have "0 \<le> operationIdCounter s"
    unfolding ids_inv_def by (rule ascending_ids_bounds)
  with Clear show ?thesis by (simp add: ids_inv_def clear_def)
qed

lemma ids_inv_run: "ids_inv s \<Longrightarrow> list_all plain_call calls \<Longrightarrow> ids_inv (log_run calls s)"
  unfolding log_run_def
  by (induction calls arbitrary: s) (simp_all add: ids_inv_step)

lemma plain_run_operationsSince_empty:
  assumes "list_all plain_call calls"
    and "lastOperationId (log_run calls (DrawingState_new m)) = JNum l" and "l \<le> n"
  shows "getOperationsSince coerce_gt (JNum n) (log_run calls (DrawingState_new m)) = []"
proof -
  let ?s = "log_run calls (DrawingState_new m)"
  have "ids_inv ?s"
    using ids_inv_new assms(1) by (rule ids_inv_run)
  then have a: "ascending_ids 0 (operationIdCounter ?s) (operations ?s)"
    unfolding ids_inv_def by (rule ascending_ids_prefix)
  from assms(2) have ne: "operations ?s \<noteq> []" and la: "op_id (last (operations ?s)) = JNum l"
    by (auto simp: lastOperationId_def split: if_splits)
  have "\<not> js_gt coerce_gt (op_id op) (JNum n)" if "op \<in> set (operations ?s)" for op
  proof -
    from ascending_ids_last [OF a ne la that] obtain i where "op_id op = JNum i" "i \<le> l"
      by blast
    with assms(3) show ?thesis by simp
  qed
  then show ?thesis
    by (simp add: getOperationsSince_def)
qed

text \<open>
  C8, in a log that received a payload with an \<^verbatim>\<open>id\<close> of its own. After
  \<^verbatim>\<open>addOperation({id: 10})\<close> and \<^verbatim>\<open>addOperation({})\<close> on a new log the entries carry
  the ids 10 and 2, in this order, and \<open>lastOperationId\<close> is 2; the operations since id 2
  are the one with id 10, not the empty sequence.
\<close>

theorem operationsSince_last_id_not_empty:
  "lastOperationId
     (log_run [Append 0 [(''id'', JNum 10)], Append 0 []] (DrawingState_new None)) = JNum 2
   \<and> map op_id (getOperationsSince (\<lambda>a b. False) (JNum 2)
        (log_run [Append 0 [(''id'', JNum 10)], Append 0 []] (DrawingState_new None)))
     = [JNum 10]
   \<and> map op_id (operations
        (log_run [Append 0 [(''id'', JNum 10)], Append 0 []] (DrawingState_new None)))
     = [JNum 10, JNum 2]"
  by (simp add: log_run_def addOperation_def DrawingState_new_def Let_def spread_def
      op_id_def js_get_def lastOperationId_def getOperationsSince_def)

section \<open>The default room\<close>

lemma registry_inv_new: "registry_inv (RoomManager_new now)"
  by (simp add: registry_inv_def RoomManager_new_def createRoom_def Let_def)

lemma createRoom_keeps:
  "defaultRoomId (snd (createRoom now roomId m)) = defaultRoomId m"
  "map_of (rooms m) k \<noteq> None \<Longrightarrow> map_of (rooms (snd (createRoom now roomId m))) k \<noteq> None"
  by (simp_all add: createRoom_def Let_def update_conv' split: option.splits)

lemma registry_inv_createRoom: "registry_inv m \<Longrightarrow> registry_inv (snd (createRoom now roomId m))"
  by (simp add: registry_inv_def createRoom_keeps)

lemma registry_inv_getOrCreateRoom:
  "registry_inv m \<Longrightarrow> registry_inv (snd (getOrCreateRoom now roomId m))"
  by (simp add: getOrCreateRoom_def registry_inv_createRoom split: option.splits)

lemma registry_inv_addUserToRoom:
  assumes "registry_inv m"
  shows "registry_inv (addUserToRoom created joined roomId userId userInfo m)"
proof -
  obtain r m1 where g: "getOrCreateRoom created roomId m = (r, m1)"
    by (cases "getOrCreateRoom created roomId m")
  from assms have "registry_inv (snd (getOrCreateRoom created roomId m))"
    by (rule registry_inv_getOrCreateRoom)
  with g have "registry_inv m1" by simp
  then show ?thesis
    by (simp add: addUserToRoom_def g Let_def registry_inv_def update_conv')
qed

lemma registry_inv_deleteRoom: "registry_inv m \<Longrightarrow> registry_inv (deleteRoom roomId m)"
  by (simp add: registry_inv_def deleteRoom_def delete_conv')

lemma registry_inv_removeUserFromRoom:
  assumes "registry_inv m"
  shows "registry_inv (removeUserFromRoom roomId userId m)"
proof (cases "getRoom roomId m")
  case None
  with assms show ?thesis by (simp add: removeUserFromRoom_def)
next
  case (Some r)
  let ?m1 = "m\<lparr>rooms := AList.update roomId
               (r\<lparr>room_users := AList.delete userId (room_users r)\<rparr>) (rooms m)\<rparr>"
  from assms have "registry_inv ?m1"
    by (simp add: registry_inv_def update_conv')
  then have "registry_inv (deleteRoom roomId ?m1)"
    by (rule registry_inv_deleteRoom)
  moreover have "removeUserFromRoom roomId userId m = ?m1
      \<or> removeUserFromRoom roomId userId m = deleteRoom roomId ?m1"
    using Some by (simp add: removeUserFromRoom_def Let_def)
  ultimately show ?thesis
    using \<open>registry_inv ?m1\<close> by auto
qed

lemma registry_inv_step: "registry_inv m \<Longrightarrow> registry_inv (registry_step c m)"
  by (cases c)
    (simp_all add: registry_inv_createRoom registry_inv_getOrCreateRoom
      registry_inv_addUserToRoom registry_inv_removeUserFromRoom registry_inv_deleteRoom)

lemma registry_inv_run: "registry_inv m \<Longrightarrow> registry_inv (registry_run calls m)"
  unfolding registry_run_def
  by (induction calls arbitrary: m) (simp_all add: registry_inv_step)

lemma removeUser_last_non_default:
  assumes "getRoom roomId m = Some r" and "map fst (room_users r) = [userId]"
    and "roomId \<noteq> defaultRoomId m"
  shows "getRoom roomId (removeUserFromRoom roomId userId m) = None"
proof -
  from assms(2) have "AList.delete userId (room_users r) = []"
    by (cases "room_users r") (auto simp: AList.delete_eq)
  with assms(1,3) show ?thesis
    by (simp add: removeUserFromRoom_def Let_def deleteRoom_def getRoom_def delete_conv')
qed

lemma removeUser_last_default:
  assumes "getRoom roomId m = Some r" and "map fst (room_users r) = [userId]"
    and "roomId = defaultRoomId m"
  shows "getRoom roomId (removeUserFromRoom roomId userId m) = Some (r\<lparr>room_users := []\<rparr>)"
proof -
  from assms(2) have "AList.delete userId (room_users r) = []"
    by (cases "room_users r") (auto simp: AList.delete_eq)
  with assms(1,3) show ?thesis
    by (simp add: removeUserFromRoom_def Let_def getRoom_def update_conv')
qed

text \<open>
  C6. In a registry reached from a new one by any calls of \<^verbatim>\<open>createRoom\<close>,
  \<^verbatim>\<open>getOrCreateRoom\<close>, \<^verbatim>\<open>addUserToRoom\<close>, \<^verbatim>\<open>removeUserFromRoom\<close> and
  \<^verbatim>\<open>deleteRoom\<close>: the default room id is \<^verbatim>\<open>default\<close> and that room exists; \<^verbatim>\<open>deleteRoom("default")\<close> changes
  nothing; removing the only user of another room removes the room, and its log with it,
  from the registry; removing the only user of the default room leaves the room in the
  registry, with no users and everything else as it was.
\<close>

theorem default_room_survives:
  "defaultRoomId (registry_run calls (RoomManager_new now)) = ''default''
   \<and> getRoom ''default'' (registry_run calls (RoomManager_new now)) \<noteq> None
   \<and> deleteRoom ''default'' (registry_run calls (RoomManager_new now))
       = registry_run calls (RoomManager_new now)
   \<and> (roomId \<noteq> ''default''
        \<and> getRoom roomId (registry_run calls (RoomManager_new now)) = Some r
        \<and> map fst (room_users r) = [userId]
      \<longrightarrow> getRoom roomId
            (removeUserFromRoom roomId userId (registry_run calls (RoomManager_new now))) = None)
   \<and> (getRoom ''default'' (registry_run calls (RoomManager_new now)) = Some d
        \<and> map fst (room_users d) = [userId]
      \<longrightarrow> getRoom ''default''
            (removeUserFromRoom ''default'' userId (registry_run calls (RoomManager_new now)))
          = Some (d\<lparr>room_users := []\<rparr>))"
proof -
  let ?m = "registry_run calls (RoomManager_new now)"
  have i: "registry_inv ?m"
    by (rule registry_inv_run) (rule registry_inv_new)
  then have dflt: "defaultRoomId ?m = ''default''"
    by (simp add: registry_inv_def)
  from i have 1: "getRoom ''default'' ?m \<noteq> None"
    by (simp add: registry_inv_def getRoom_def)
  from dflt have 2: "deleteRoom ''default'' ?m = ?m"
    by (simp add: deleteRoom_def)
  have 3: "getRoom roomId (removeUserFromRoom roomId userId ?m) = None"
    if "roomId \<noteq> ''default''" "getRoom roomId ?m = Some r" "map fst (room_users r) = [userId]"
    using that dflt by (simp add: removeUser_last_non_default)
  have 4: "getRoom ''default'' (removeUserFromRoom ''default'' userId ?m)
           = Some (d\<lparr>room_users := []\<rparr>)"
    if "getRoom ''default'' ?m = Some d" "map fst (room_users d) = [userId]"
    using that dflt by (simp add: removeUser_last_default)
  from dflt 1 2 3 4 show ?thesis by (intro conjI impI) auto
qed

text \<open>
  An instance: a registry where \<open>alice\<close> is the only user of \<open>r1\<close>, \<open>bob\<close> the only
  user of the default room, and \<^verbatim>\<open>deleteRoom("default")\<close> has been called.
\<close>

theorem default_room_survives_witness:
  "getRoom ''r1'' example_rooms \<noteq> None
   \<and> getRoom ''default'' example_rooms \<noteq> None
   \<and> getRoom ''r1'' (removeUserFromRoom ''r1'' ''alice'' example_rooms) = None
   \<and> map_option room_users
        (getRoom ''default'' (removeUserFromRoom ''default'' ''bob'' example_rooms)) = Some []"
proof -
  have e: "example_rooms =
    \<lparr>rooms =
       [(''default'',
         \<lparr>room_id = ''default'',
          room_users = [(''bob'', \<lparr>ru_ws = Some 1, ru_props = [(''joinedAt'', JNum 4)]\<rparr>)],
          room_drawingState = DrawingState_new None, room_createdAt = 0\<rparr>),
        (''r1'',
         \<lparr>room_id = ''r1'',
          room_users = [(''alice'', \<lparr>ru_ws = Some 0, ru_props = [(''joinedAt'', JNum 2)]\<rparr>)],
          room_drawingState = DrawingState_new None, room_createdAt = 1\<rparr>)],
      defaultRoomId = ''default''\<rparr>"
    by (simp add: example_rooms_def registry_run_def RoomManager_new_def createRoom_def
        getOrCreateRoom_def addUserToRoom_def deleteRoom_def getRoom_def Let_def spread_def)
  have c: "registry_run
       [AddUserToRoom 1 2 ''r1'' ''alice'' \<lparr>ru_ws = Some 0, ru_props = []\<rparr>,
        AddUserToRoom 3 4 ''default'' ''bob'' \<lparr>ru_ws = Some 1, ru_props = []\<rparr>,
        DeleteRoom ''default'']
       (RoomManager_new 0) = example_rooms"
    by (simp add: example_rooms_def)
  show ?thesis
    using default_room_survives
      [where calls = "[AddUserToRoom 1 2 ''r1'' ''alice'' \<lparr>ru_ws = Some 0, ru_props = []\<rparr>,
            AddUserToRoom 3 4 ''default'' ''bob'' \<lparr>ru_ws = Some 1, ru_props = []\<rparr>,
            DeleteRoom ''default'']"
        and now = 0 and roomId = "''r1''" and userId = "''alice''"
        and r = "\<lparr>room_id = ''r1'',
          room_users = [(''alice'', \<lparr>ru_ws = Some 0, ru_props = [(''joinedAt'', JNum 2)]\<rparr>)],
          room_drawingState = DrawingState_new None, room_createdAt = 1\<rparr>"]
      default_room_survives
      [where calls = "[AddUserToRoom 1 2 ''r1'' ''alice'' \<lparr>ru_ws = Some 0, ru_props = []\<rparr>,
            AddUserToRoom 3 4 ''default'' ''bob'' \<lparr>ru_ws = Some 1, ru_props = []\<rparr>,
            DeleteRoom ''default'']"
        and now = 0 and userId = "''bob''"
        and d = "\<lparr>room_id = ''default'',
          room_users = [(''bob'', \<lparr>ru_ws = Some 1, ru_props = [(''joinedAt'', JNum 4)]\<rparr>)],
          room_drawingState = DrawingState_new None, room_createdAt = 0\<rparr>"]
    unfolding c by (simp add: e getRoom_def)
qed

section \<open>Broadcasts\<close>

text \<open>
  Sending a frame does not change the state of any socket, so the loop over the users
  hands the frame to the recipients that were open when it started, in the order of the
  map.
\<close>

lemma ws_send_readyState: "readyState (ws_send w frame n) = readyState n"
  by (simp add: ws_send_def)

lemma recipients_ws_send:
  "recipients (ws_send w frame n) ex us = recipients n ex us"
  by (simp add: recipients_def ws_send_readyState)

lemma room_recipients_ws_send:
  "room_recipients (ws_send w frame n) ex us = room_recipients n ex us"
  by (simp add: room_recipients_def ws_send_readyState cong: option.case_cong)

lemma users_forEach_sends:
  "users_forEach messageStr ex us n
     = n\<lparr>sent := sent n @ map (\<lambda>w. (w, messageStr)) (recipients n ex us)\<rparr>"
proof (induction us arbitrary: n)
  case Nil
  then show ?case by (simp add: recipients_def)
next
  case (Cons e us)
  obtain userId u where e: "e = (userId, u)" by (cases e)
  show ?case
  proof (cases "Some userId \<noteq> ex \<and> readyState n (ws u) = WebSocket_OPEN")
    case True
    then have "users_forEach messageStr ex (e # us) n
               = users_forEach messageStr ex us (ws_send (ws u) messageStr n)"
      by (simp add: e)
    also have "\<dots> = (ws_send (ws u) messageStr n)
        \<lparr>sent := sent (ws_send (ws u) messageStr n)
                 @ map (\<lambda>w. (w, messageStr)) (recipients n ex us)\<rparr>"
      by (simp only: Cons.IH recipients_ws_send)
    also have "\<dots> = n\<lparr>sent := sent n @ map (\<lambda>w. (w, messageStr)) (recipients n ex (e # us))\<rparr>"
      using True by (simp add: ws_send_def recipients_def e WebSocket_OPEN_def)
    finally show ?thesis .
  next
    case False
    then have "users_forEach messageStr ex (e # us) n = users_forEach messageStr ex us n"
      by (auto simp: e)
    also have "\<dots> = n\<lparr>sent := sent n @ map (\<lambda>w. (w, messageStr)) (recipients n ex us)\<rparr>"
      by (rule Cons.IH)
    also have "recipients n ex us = recipients n ex (e # us)"
      using False by (auto simp: recipients_def e WebSocket_OPEN_def)
    finally show ?thesis .
  qed
qed


lemma room_forEach_sends:
  "room_forEach messageStr ex us n
     = n\<lparr>sent := sent n @ map (\<lambda>w. (w, messageStr)) (room_recipients n ex us)\<rparr>"
proof (induction us arbitrary: n)
  case Nil
  then show ?case by (simp add: room_recipients_def)
next
  case (Cons e us)
  obtain userId u where e: "e = (userId, u)" by (cases e)
  show ?case
  proof (cases "\<exists>w. ru_ws u = Some w \<and> Some userId \<noteq> ex \<and> readyState n w = 1")
    case True
    then obtain w where w: "ru_ws u = Some w" "Some userId \<noteq> ex" "readyState n w = 1"
      by blast
    then have "room_forEach messageStr ex (e # us) n
               = room_forEach messageStr ex us (ws_send w messageStr n)"
      by (simp add: e)
    also have "\<dots> = (ws_send w messageStr n)
        \<lparr>sent := sent (ws_send w messageStr n)
                 @ map (\<lambda>w. (w, messageStr)) (room_recipients n ex us)\<rparr>"
      by (simp only: Cons.IH room_recipients_ws_send)
    also have "\<dots> = n\<lparr>sent := sent n
                 @ map (\<lambda>w. (w, messageStr)) (room_recipients n ex (e # us))\<rparr>"
      using w by (simp add: ws_send_def room_recipients_def e)
    finally show ?thesis .
  next
    case False
    then have "room_forEach messageStr ex (e # us) n = room_forEach messageStr ex us n"
      by (auto simp: e split: option.splits)
    also have "\<dots> = n\<lparr>sent := sent n @ map (\<lambda>w. (w, messageStr)) (room_recipients n ex us)\<rparr>"
      by (rule Cons.IH)
    also have "room_recipients n ex us = room_recipients n ex (e # us)"
      using False by (auto simp: room_recipients_def e split: option.splits)
    finally show ?thesis .
  qed
qed

lemma broadcast_sends:
  "broadcast stringify message ex srv
     = srv\<lparr>network := (network srv)\<lparr>sent := sent (network srv)
          @ map (\<lambda>w. (w, stringify message)) (recipients (network srv) ex (users srv))\<rparr>\<rparr>"
  by (simp add: broadcast_def Let_def users_forEach_sends)

text \<open>
  C9. \<^verbatim>\<open>broadcastToRoom\<close> does nothing when the room does not exist. Otherwise it
  hands one and the same string, the serialized message, to the socket of each user of
  the room that has a socket in the open state and is not the excluded user, in the order
  of the user map, and to no other socket; users without a socket or with a socket in
  another state are passed over and the users after them are still served. The
  \<^verbatim>\<open>broadcast\<close> of the server does the same over all connected users and changes
  nothing but the network.
\<close>

theorem broadcastToRoom_delivery:
  "(getRoom roomId m = None \<longrightarrow> broadcastToRoom stringify roomId message ex m n = n)
   \<and> (getRoom roomId m = Some r \<longrightarrow>
        broadcastToRoom stringify roomId message ex m n
          = n\<lparr>sent := sent n
                 @ map (\<lambda>w. (w, stringify message)) (room_recipients n ex (room_users r))\<rparr>)
   \<and> broadcast stringify message ex srv
        = srv\<lparr>network := (network srv)\<lparr>sent := sent (network srv)
             @ map (\<lambda>w. (w, stringify message)) (recipients (network srv) ex (users srv))\<rparr>\<rparr>"
  by (simp add: broadcastToRoom_def Let_def room_forEach_sends broadcast_sends)

text \<open>
  An instance: in room \<open>r1\<close> the socket of \<open>bob\<close> is closed, \<open>carol\<close> has none and
  \<open>dave\<close> is excluded, so the frame goes to \<open>alice\<close> and \<open>erin\<close>; no room is called
  \<open>nowhere\<close>; on the server the third user's socket is closed.
\<close>

theorem broadcastToRoom_delivery_witness:
  "sent (broadcastToRoom frame_tag ''r1'' (JObj [(''type'', JStr ''clear'')]) (Some ''dave'')
       example_registry example_net) = [(0, ''clear''), (4, ''clear'')]
   \<and> broadcastToRoom frame_tag ''nowhere'' (JObj [(''type'', JStr ''clear'')]) None
       example_registry example_net = example_net
   \<and> sent (network (broadcast frame_tag (JObj [(''type'', JStr ''clear'')]) None example_server))
       = [(0, ''clear''), (1, ''clear'')]"
proof -
  have g: "getRoom ''nowhere'' example_registry = None"
    by (simp add: example_registry_def registry_run_def RoomManager_new_def createRoom_def
        getOrCreateRoom_def addUserToRoom_def getRoom_def Let_def spread_def)
  have r: "getRoom ''r1'' example_registry = Some
      \<lparr>room_id = ''r1'',
       room_users =
         [(''alice'', \<lparr>ru_ws = Some 0, ru_props = [(''joinedAt'', JNum 2)]\<rparr>),
          (''bob'', \<lparr>ru_ws = Some 2, ru_props = [(''joinedAt'', JNum 3)]\<rparr>),
          (''carol'', \<lparr>ru_ws = None, ru_props = [(''joinedAt'', JNum 4)]\<rparr>),
          (''dave'', \<lparr>ru_ws = Some 1, ru_props = [(''joinedAt'', JNum 5)]\<rparr>),
          (''erin'', \<lparr>ru_ws = Some 4, ru_props = [(''joinedAt'', JNum 6)]\<rparr>)],
       room_drawingState = DrawingState_new None, room_createdAt = 1\<rparr>"
    by (simp add: example_registry_def registry_run_def RoomManager_new_def createRoom_def
        getOrCreateRoom_def addUserToRoom_def getRoom_def Let_def spread_def)
  have f: "frame_tag (JObj [(''type'', JStr ''clear'')]) = ''clear''"
    by (simp add: frame_tag_def js_get_def)
  show ?thesis
    using broadcastToRoom_delivery [where roomId = "''nowhere''" and m = example_registry
        and stringify = frame_tag and message = "JObj [(''type'', JStr ''clear'')]"
        and ex = None and n = example_net and srv = example_server]
      broadcastToRoom_delivery [where roomId = "''r1''" and m = example_registry
        and stringify = frame_tag and message = "JObj [(''type'', JStr ''clear'')]"
        and ex = "Some ''dave''" and n = example_net]
    by (simp add: g r f room_recipients_def recipients_def example_net_def example_server_def)
qed


section \<open>Draw and cursor messages\<close>

text \<open>
  C7. A draw message from \<open>userId\<close> (the log of the server has a cap that is not
  negative; it is 500) appends the operation
  \<^verbatim>\<open>{id, timestamp, type: "draw", userId, data}\<close>, with the data received, to the log:
  the new operation is the newest entry; while the log has room the entries are the old
  entries followed by it, and in general (cap at least one) they are the last
  \<open>maxOperations\<close> of the old entries followed by it; the redo stack is emptied and the
  counter moves by one. The users are as before, and the serialization of the message
  \<^verbatim>\<open>{type: "draw", userId, data}\<close>, with the same data, is handed once to the socket
  of every connected user whose socket is open, in the order of the map, the sender's
  socket among them. A cursor message changes nothing but the network: the log is as it
  was, and the serialization of \<^verbatim>\<open>{type: "cursor", userId, x, y}\<close> is handed to the
  socket of every connected user whose socket is open and whose key is not the sender's.
\<close>

theorem draw_and_cursor_fan_out:
  assumes "0 \<le> maxOperations (drawingState srv)"
  shows "operations (drawingState (handleDraw stringify now userId drawData srv)) \<noteq> []
     \<and> props (last (operations (drawingState (handleDraw stringify now userId drawData srv))))
         = [(''id'', JNum (operationIdCounter (drawingState srv) + 1)), (''timestamp'', JNum now),
            (''type'', JStr ''draw''), (''userId'', JStr userId), (''data'', drawData)]
     \<and> (1 \<le> maxOperations (drawingState srv) \<longrightarrow>
          drawingState (handleDraw stringify now userId drawData srv)
            = (drawingState srv)
                \<lparr>operations :=
                   drop (Suc (length (operations (drawingState srv)))
                           - nat (maxOperations (drawingState srv)))
                     (operations (drawingState srv)
                       @ [\<lparr>ref = allocated (drawingState srv),
                           props = [(''id'', JNum (operationIdCounter (drawingState srv) + 1)),
                                    (''timestamp'', JNum now), (''type'', JStr ''draw''),
                                    (''userId'', JStr userId), (''data'', drawData)]\<rparr>]),
                 redoStack := [],
                 operationIdCounter := operationIdCounter (drawingState srv) + 1,
                 allocated := Suc (allocated (drawingState srv))\<rparr>)
     \<and> (int (length (operations (drawingState srv))) < maxOperations (drawingState srv) \<longrightarrow>
          operations (drawingState (handleDraw stringify now userId drawData srv))
            = operations (drawingState srv)
                @ [\<lparr>ref = allocated (drawingState srv),
                    props = [(''id'', JNum (operationIdCounter (drawingState srv) + 1)),
                             (''timestamp'', JNum now), (''type'', JStr ''draw''),
                             (''userId'', JStr userId), (''data'', drawData)]\<rparr>])
     \<and> users (handleDraw stringify now userId drawData srv) = users srv
     \<and> network (handleDraw stringify now userId drawData srv)
         = (network srv)\<lparr>sent := sent (network srv)
             @ map (\<lambda>(key, u). (ws u,
                     stringify (JObj [(''type'', JStr ''draw''), (''userId'', JStr userId),
                                      (''data'', drawData)])))
                 (filter (\<lambda>(key, u). readyState (network srv) (ws u) = 1) (users srv))\<rparr>
     \<and> (\<forall>u. (userId, u) \<in> set (users srv) \<and> readyState (network srv) (ws u) = 1 \<longrightarrow>
           (ws u, stringify (JObj [(''type'', JStr ''draw''), (''userId'', JStr userId),
                                   (''data'', drawData)]))
             \<in> set (sent (network (handleDraw stringify now userId drawData srv))))
     \<and> drawingState (handleCursor stringify userId data srv) = drawingState srv
     \<and> handleCursor stringify userId data srv
         = srv\<lparr>network := (network srv)\<lparr>sent := sent (network srv)
             @ map (\<lambda>(key, u). (ws u,
                     stringify (JObj [(''type'', JStr ''cursor''), (''userId'', JStr userId),
                                      (''x'', js_get data ''x''), (''y'', js_get data ''y'')])))
                 (filter (\<lambda>(key, u). key \<noteq> userId \<and> readyState (network srv) (ws u) = 1)
                    (users srv))\<rparr>\<rparr>"
proof -
  let ?payload = "[(''type'', JStr ''draw''), (''userId'', JStr userId), (''data'', drawData)]"
  let ?props = "[(''id'', JNum (operationIdCounter (drawingState srv) + 1)),
                 (''timestamp'', JNum now), (''type'', JStr ''draw''),
                 (''userId'', JStr userId), (''data'', drawData)]"
  let ?op = "\<lparr>ref = allocated (drawingState srv), props = ?props\<rparr>"
  let ?log = "snd (addOperation now ?payload (drawingState srv))"
  let ?frame = "stringify (JObj ?payload)"
  let ?srvD = "handleDraw stringify now userId drawData srv"
  have every: "map (\<lambda>w. (w, f)) (recipients n None us)
      = map (\<lambda>(key, u). (ws u, f)) (filter (\<lambda>(key, u). readyState n (ws u) = 1) us)" for f n us
    by (simp add: recipients_def split_def comp_def)
  have others: "map (\<lambda>w. (w, f)) (recipients n (Some userId) us)
      = map (\<lambda>(key, u). (ws u, f))
          (filter (\<lambda>(key, u). key \<noteq> userId \<and> readyState n (ws u) = 1) us)" for f n us
    by (simp add: recipients_def split_def comp_def)
  have h: "?srvD = broadcast stringify (JObj ?payload) None (srv\<lparr>drawingState := ?log\<rparr>)"
    by (simp add: handleDraw_def split_def Let_def)
  have log: "drawingState ?srvD = ?log"
    by (simp add: h broadcast_sends)
  have op: "fst (addOperation now ?payload (drawingState srv)) = ?op"
    by (simp add: addOperation_def Let_def spread_def)
  have newest: "operations ?log \<noteq> [] \<and> last (operations ?log) = ?op"
    using addOperation_newest [OF assms, of now ?payload] by (simp add: op)
  have full: "?log = (drawingState srv)
       \<lparr>operations := drop (Suc (length (operations (drawingState srv)))
                              - nat (maxOperations (drawingState srv)))
                         (operations (drawingState srv) @ [?op]),
        redoStack := [],
        operationIdCounter := operationIdCounter (drawingState srv) + 1,
        allocated := Suc (allocated (drawingState srv))\<rparr>"
    if c: "1 \<le> maxOperations (drawingState srv)"
  proof -
    have "operations ?log = drop (Suc (length (operations (drawingState srv)))
                              - nat (maxOperations (drawingState srv)))
                         (operations (drawingState srv) @ [?op])"
      using addOperation_keeps_most_recent [OF c, of now ?payload] by (simp add: op)
    moreover have "?log = (drawingState srv)
       \<lparr>operations := operations ?log, redoStack := [],
        operationIdCounter := operationIdCounter (drawingState srv) + 1,
        allocated := Suc (allocated (drawingState srv))\<rparr>"
      by (simp add: addOperation_def Let_def)
    ultimately show ?thesis by simp
  qed
  have room: "operations ?log = operations (drawingState srv) @ [?op]"
    if "int (length (operations (drawingState srv))) < maxOperations (drawingState srv)"
    using that by (simp add: addOperation_def Let_def spread_def)
  have us: "users ?srvD = users srv"
    by (simp add: h broadcast_sends)
  have n: "network ?srvD = (network srv)\<lparr>sent := sent (network srv)
             @ map (\<lambda>(key, u). (ws u, ?frame))
                 (filter (\<lambda>(key, u). readyState (network srv) (ws u) = 1) (users srv))\<rparr>"
    by (simp add: h broadcast_sends every)
  have echo: "(ws u, ?frame) \<in> set (sent (network ?srvD))"
    if "(userId, u) \<in> set (users srv)" "readyState (network srv) (ws u) = 1" for u
    using that by (force simp: n)
  have c: "handleCursor stringify userId data srv
      = srv\<lparr>network := (network srv)\<lparr>sent := sent (network srv)
             @ map (\<lambda>(key, u). (ws u,
                     stringify (JObj [(''type'', JStr ''cursor''), (''userId'', JStr userId),
                                      (''x'', js_get data ''x''), (''y'', js_get data ''y'')])))
                 (filter (\<lambda>(key, u). key \<noteq> userId \<and> readyState (network srv) (ws u) = 1)
                    (users srv))\<rparr>\<rparr>"
    by (simp add: handleCursor_def broadcast_sends others)
  have cl: "drawingState (handleCursor stringify userId data srv) = drawingState srv"
    by (simp add: c)
  from newest have 1: "operations (drawingState ?srvD) \<noteq> []"
    and 2: "props (last (operations (drawingState ?srvD))) = ?props"
    by (simp_all add: log)
  from full have 3: "1 \<le> maxOperations (drawingState srv) \<longrightarrow> drawingState ?srvD = (drawingState srv)
       \<lparr>operations := drop (Suc (length (operations (drawingState srv)))
                              - nat (maxOperations (drawingState srv)))
                         (operations (drawingState srv) @ [?op]),
        redoStack := [],
        operationIdCounter := operationIdCounter (drawingState srv) + 1,
        allocated := Suc (allocated (drawingState srv))\<rparr>"
    by (simp only: log) blast
  from room have 4: "int (length (operations (drawingState srv))) < maxOperations (drawingState srv)
      \<longrightarrow> operations (drawingState ?srvD) = operations (drawingState srv) @ [?op]"
    by (simp only: log) blast
  from echo have 7: "\<forall>u. (userId, u) \<in> set (users srv) \<and> readyState (network srv) (ws u) = 1
      \<longrightarrow> (ws u, ?frame) \<in> set (sent (network ?srvD))"
    by blast
  show ?thesis
    using 1 2 3 4 us n 7 cl c by (intro conjI) assumption+
qed


text \<open>
  An instance: the log holds one operation already; of three connected users the third
  has a closed socket; the first sends a draw and a cursor message. The frames are written
  out in full.
\<close>

theorem draw_and_cursor_fan_out_witness:
  "0 \<le> maxOperations (drawingState example_busy_server)
   \<and> map op_id (operations (drawingState
        (handleDraw json_text 5 ''user_1'' (JObj [(''x'', JNum 3), (''y'', JNum 4)])
           example_busy_server))) = [JNum 1, JNum 2]
   \<and> map (\<lambda>op. js_get (props op) ''data'') (operations (drawingState
        (handleDraw json_text 5 ''user_1'' (JObj [(''x'', JNum 3), (''y'', JNum 4)])
           example_busy_server))) = [JObj [(''x'', JNum 12)], JObj [(''x'', JNum 3), (''y'', JNum 4)]]
   \<and> sent (network
        (handleDraw json_text 5 ''user_1'' (JObj [(''x'', JNum 3), (''y'', JNum 4)])
           example_busy_server))
       = [(0, ''{type:draw,userId:user_1,data:{x:3,y:4}}''),
          (1, ''{type:draw,userId:user_1,data:{x:3,y:4}}'')]
   \<and> sent (network
        (handleCursor json_text ''user_1'' [(''x'', JNum 3), (''y'', JNum 4)] example_busy_server))
       = [(1, ''{type:cursor,userId:user_1,x:3,y:4}'')]
   \<and> drawingState
        (handleCursor json_text ''user_1'' [(''x'', JNum 3), (''y'', JNum 4)] example_busy_server)
       = drawingState example_busy_server"
proof -
  have h: "0 \<le> maxOperations (drawingState example_busy_server)"
    by (simp add: example_busy_server_def)
  have c: "1 \<le> maxOperations (drawingState example_busy_server)"
    by (simp add: example_busy_server_def)
  have u: "users example_busy_server = users example_server"
    and n: "network example_busy_server = example_net"
    by (simp_all add: example_busy_server_def example_server_def)
  have f: "filter (\<lambda>(key, u). readyState example_net (ws u) = 1) (users example_server)
           = take 2 (users example_server)"
    "filter (\<lambda>(key, u). key \<noteq> ''user_1'' \<and> readyState example_net (ws u) = 1)
       (users example_server) = [users example_server ! 1]"
    by (simp_all add: example_server_def example_net_def)
  have j: "json_text (JObj [(''type'', JStr ''draw''), (''userId'', JStr ''user_1''),
                            (''data'', JObj [(''x'', JNum 3), (''y'', JNum 4)])])
           = ''{type:draw,userId:user_1,data:{x:3,y:4}}''"
    "json_text (JObj [(''type'', JStr ''cursor''), (''userId'', JStr ''user_1''),
                      (''x'', js_get [(''x'', JNum 3), (''y'', JNum 4)] ''x''),
                      (''y'', js_get [(''x'', JNum 3), (''y'', JNum 4)] ''y'')])
           = ''{type:cursor,userId:user_1,x:3,y:4}''"
    by (simp_all add: dec.simps js_get_def)
  note t = draw_and_cursor_fan_out [OF h, of json_text 5 "''user_1''"
      "JObj [(''x'', JNum 3), (''y'', JNum 4)]" "[(''x'', JNum 3), (''y'', JNum 4)]"]
  from t c have d: "drawingState
      (handleDraw json_text 5 ''user_1'' (JObj [(''x'', JNum 3), (''y'', JNum 4)]) example_busy_server)
      = (drawingState example_busy_server)
          \<lparr>operations := drop (Suc (length (operations (drawingState example_busy_server)))
                 - nat (maxOperations (drawingState example_busy_server)))
             (operations (drawingState example_busy_server)
              @ [\<lparr>ref = allocated (drawingState example_busy_server),
                  props = [(''id'', JNum (operationIdCounter (drawingState example_busy_server) + 1)),
                           (''timestamp'', JNum 5), (''type'', JStr ''draw''),
                           (''userId'', JStr ''user_1''),
                           (''data'', JObj [(''x'', JNum 3), (''y'', JNum 4)])]\<rparr>]),
           redoStack := [],
           operationIdCounter := operationIdCounter (drawingState example_busy_server) + 1,
           allocated := Suc (allocated (drawingState example_busy_server))\<rparr>"
    by blast
  have o: "map op_id (operations (drawingState
        (handleDraw json_text 5 ''user_1'' (JObj [(''x'', JNum 3), (''y'', JNum 4)])
           example_busy_server))) = [JNum 1, JNum 2]"
    "map (\<lambda>op. js_get (props op) ''data'') (operations (drawingState
        (handleDraw json_text 5 ''user_1'' (JObj [(''x'', JNum 3), (''y'', JNum 4)])
           example_busy_server))) = [JObj [(''x'', JNum 12)], JObj [(''x'', JNum 3), (''y'', JNum 4)]]"
    unfolding d by (simp_all add: example_busy_server_def op_id_def js_get_def)
  from t have s: "network
        (handleDraw json_text 5 ''user_1'' (JObj [(''x'', JNum 3), (''y'', JNum 4)])
           example_busy_server)
      = (network example_busy_server)\<lparr>sent := sent (network example_busy_server)
             @ map (\<lambda>(key, u). (ws u,
                     json_text (JObj [(''type'', JStr ''draw''), (''userId'', JStr ''user_1''),
                                      (''data'', JObj [(''x'', JNum 3), (''y'', JNum 4)])])))
                 (filter (\<lambda>(key, u). readyState (network example_busy_server) (ws u) = 1)
                    (users example_busy_server))\<rparr>"
    by blast
  have s': "sent (network
        (handleDraw json_text 5 ''user_1'' (JObj [(''x'', JNum 3), (''y'', JNum 4)])
           example_busy_server))
       = [(0, ''{type:draw,userId:user_1,data:{x:3,y:4}}''),
          (1, ''{type:draw,userId:user_1,data:{x:3,y:4}}'')]"
    unfolding s j u n f by (simp add: example_server_def example_net_def)
  from t have k: "handleCursor json_text ''user_1'' [(''x'', JNum 3), (''y'', JNum 4)]
        example_busy_server
      = example_busy_server\<lparr>network := (network example_busy_server)
          \<lparr>sent := sent (network example_busy_server)
             @ map (\<lambda>(key, u). (ws u,
                     json_text (JObj [(''type'', JStr ''cursor''), (''userId'', JStr ''user_1''),
                                      (''x'', js_get [(''x'', JNum 3), (''y'', JNum 4)] ''x''),
                                      (''y'', js_get [(''x'', JNum 3), (''y'', JNum 4)] ''y'')])))
                 (filter (\<lambda>(key, u). key \<noteq> ''user_1''
                            \<and> readyState (network example_busy_server) (ws u) = 1)
                    (users example_busy_server))\<rparr>\<rparr>"
    by blast
  have k': "sent (network
        (handleCursor json_text ''user_1'' [(''x'', JNum 3), (''y'', JNum 4)] example_busy_server))
       = [(1, ''{type:cursor,userId:user_1,x:3,y:4}'')]"
    unfolding k j u n f by (simp add: example_server_def example_net_def)
  have l: "drawingState
        (handleCursor json_text ''user_1'' [(''x'', JNum 3), (''y'', JNum 4)] example_busy_server)
       = drawingState example_busy_server"
    unfolding k by simp
  from h o s' k' l show ?thesis by (intro conjI) assumption+
qed


end
